theory Spec2Isabelle
  imports Main
begin

section \<open>Strings as the C++ code reads them\<close>

text \<open>
  A \<^verbatim>\<open>std::string\<close> is a list of bytes. Its buffer (\<^verbatim>\<open>text.data()\<close>) carries a
  terminating NUL after the last byte, so a \<^verbatim>\<open>const char*\<close> that walks the buffer is
  modelled by the list of bytes that remain in front of it: dereferencing it at the end of
  the string reads the terminator, and \<^verbatim>\<open>++m\<close> drops one byte.
\<close>

definition NUL :: char where
  "NUL = CHR 0x00"

definition deref :: "string \<Rightarrow> char" where
  \<comment> \<open>\<^verbatim>\<open>*m\<close>, and \<^verbatim>\<open>f[0]\<close> for a \<^verbatim>\<open>std::string f\<close>\<close>
  "deref m = (case m of [] \<Rightarrow> NUL | c # _ \<Rightarrow> c)"

definition c_str :: "string \<Rightarrow> string" where
  \<comment> \<open>what a callee sees of a \<^verbatim>\<open>const char*\<close>: the bytes in front of the first NUL\<close>
  "c_str m = takeWhile (\<lambda>c. c \<noteq> NUL) m"

definition isspace :: "char \<Rightarrow> bool" where
  \<comment> \<open>\<^verbatim>\<open>std::isspace(c) > 0\<close> in the "C" locale: space, \<^verbatim>\<open>\t \n \v \f \r\<close>\<close>
  "isspace c = (c = CHR 0x20 \<or> c = CHR 0x09 \<or> c = CHR 0x0A \<or> c = CHR 0x0B
                \<or> c = CHR 0x0C \<or> c = CHR 0x0D)"

section \<open>The standard library's regular expressions\<close>

text \<open>
  \<^verbatim>\<open>std::regex\<close> belongs to the C++ standard library, not to this repository. A compiled
  expression is modelled by the regular expression it denotes; \<^verbatim>\<open>std::regex_match\<close>
  decides whether the whole character sequence belongs to its language. Compilation
  of a pattern text (the constructor \<^verbatim>\<open>std::regex(text, extended | optimize)\<close>, which throws
  \<^verbatim>\<open>std::regex_error\<close> on a malformed pattern) is a parameter \<open>rc\<close> of the model:
  \<open>None\<close> stands for the exception.
\<close>

datatype rexp =
    Zero
  | One
  | Atom char
  | AnyChar
  | Alt rexp rexp
  | Seq rexp rexp
  | Star rexp

type_synonym regex_compile = "string \<Rightarrow> rexp option"

inductive_set star :: "string set \<Rightarrow> string set" for A :: "string set" where
  star_nil: "[] \<in> star A"
| star_app: "u \<in> A \<Longrightarrow> v \<in> star A \<Longrightarrow> u @ v \<in> star A"

fun lang :: "rexp \<Rightarrow> string set" where
  "lang Zero = {}"
| "lang One = {[]}"
| "lang (Atom c) = {[c]}"
| "lang AnyChar = {s. length s = 1}"
| "lang (Alt r s) = lang r \<union> lang s"
| "lang (Seq r s) = {u @ v | u v. u \<in> lang r \<and> v \<in> lang s}"
| "lang (Star r) = star (lang r)"

fun nullable :: "rexp \<Rightarrow> bool" where
  "nullable Zero = False"
| "nullable One = True"
| "nullable (Atom c) = False"
| "nullable AnyChar = False"
| "nullable (Alt r s) = (nullable r \<or> nullable s)"
| "nullable (Seq r s) = (nullable r \<and> nullable s)"
| "nullable (Star r) = True"

fun deriv :: "char \<Rightarrow> rexp \<Rightarrow> rexp" where
  "deriv a Zero = Zero"
| "deriv a One = Zero"
| "deriv a (Atom c) = (if a = c then One else Zero)"
| "deriv a AnyChar = One"
| "deriv a (Alt r s) = Alt (deriv a r) (deriv a s)"
| "deriv a (Seq r s) =
     (if nullable r then Alt (Seq (deriv a r) s) (deriv a s) else Seq (deriv a r) s)"
| "deriv a (Star r) = Seq (deriv a r) (Star r)"

fun std_regex_match :: "string \<Rightarrow> rexp \<Rightarrow> bool" where
  \<comment> \<open>\<^verbatim>\<open>std::regex_match(s, e)\<close>: the entire \<open>s\<close> is consumed\<close>
  "std_regex_match [] r = nullable r"
| "std_regex_match (c # cs) r = std_regex_match cs (deriv c r)"

section \<open>The wildcard collaborator\<close>

text \<open>
  \<^verbatim>\<open>wildcardMatch(candidate, pattern)\<close> lives in the repository's utilities, which are not
  part of the sources at hand. The filter code is modelled over an arbitrary matcher
  \<open>wm :: string \<Rightarrow> string \<Rightarrow> bool\<close>, and every result below holds for each of them. The
  function \<open>wildcardMatch\<close> instantiates the matcher in the examples.
\<close>

type_synonym wildcard = "string \<Rightarrow> string \<Rightarrow> bool"

text \<open>
  Modelled from the spec: the wildcard-matching primitive of the utilities is absent; the
  specification gives it as case-sensitive matching of a candidate against a pattern in
  which \<^verbatim>\<open>*\<close> stands for any run of characters and \<^verbatim>\<open>?\<close> for a single character.
\<close>

fun wildcardMatch :: "string \<Rightarrow> string \<Rightarrow> bool" where
  "wildcardMatch [] [] = True"
| "wildcardMatch (c # cs) [] = False"
| "wildcardMatch [] (p # ps) = (p = CHR ''*'' \<and> wildcardMatch [] ps)"
| "wildcardMatch (c # cs) (p # ps) =
     (if p = CHR ''*'' then wildcardMatch (c # cs) ps \<or> wildcardMatch cs (p # ps)
      else (p = CHR ''?'' \<or> p = c) \<and> wildcardMatch cs ps)"

section \<open>Filter, GlobFilter, RegexFilter\<close>

datatype FilterType = FT_NAME | FT_PATH

datatype FilterStrategy = FS_GLOB | FS_REGEX

text \<open>
  The two subclasses of \<^verbatim>\<open>Filter\<close> are the two constructors; the base class's members
  \<^verbatim>\<open>mText\<close>, \<^verbatim>\<open>mInheritable\<close>, \<^verbatim>\<open>mType\<close> are the selectors, which is also what the accessors
  \<^verbatim>\<open>text()\<close>, \<^verbatim>\<open>inheritable()\<close>, \<^verbatim>\<open>type()\<close> return.
\<close>

datatype Filter =
    GlobFilter (mText: string) (mInheritable: bool) (mType: FilterType)
  | RegexFilter (mText: string) (mInheritable: bool) (mType: FilterType) (mRegex: rexp)

definition GlobFilter_new :: "string \<Rightarrow> bool \<Rightarrow> FilterType \<Rightarrow> Filter" where
  "GlobFilter_new t inheritable ty = GlobFilter t inheritable ty"

definition RegexFilter_new ::
  "regex_compile \<Rightarrow> string \<Rightarrow> bool \<Rightarrow> FilterType \<Rightarrow> Filter option" where
  \<comment> \<open>the constructor compiles \<^verbatim>\<open>mRegex(text, mRegexFlags)\<close> and throws when that fails\<close>
  "RegexFilter_new rc t inheritable ty =
     (case rc t of None \<Rightarrow> None | Some r \<Rightarrow> Some (RegexFilter t inheritable ty r))"

fun strategy :: "Filter \<Rightarrow> FilterStrategy" where
  "strategy (GlobFilter t i ty) = FS_GLOB"
| "strategy (RegexFilter t i ty r) = FS_REGEX"

fun Filter_match :: "wildcard \<Rightarrow> Filter \<Rightarrow> string \<Rightarrow> bool" where
  "Filter_match wm (GlobFilter t i ty) s = wm (c_str s) (c_str t)"
| "Filter_match wm (RegexFilter t i ty r) s = std_regex_match s r"

section \<open>Diagnostic rendering\<close>

fun toString_strategy :: "FilterStrategy \<Rightarrow> string" where
  "toString_strategy FS_GLOB = ''GLOB''"
| "toString_strategy FS_REGEX = ''REGEX''"

fun toString_type :: "FilterType \<Rightarrow> string" where
  "toString_type FT_NAME = ''NAME''"
| "toString_type FT_PATH = ''PATH''"

definition toString :: "Filter \<Rightarrow> string" where
  "toString f = toString_type (mType f) @ ''/'' @ toString_strategy (strategy f)
                @ '':'' @ mText f"

section \<open>FilterClass\<close>

record FilterClass =
  mNames :: "Filter list"
  mPaths :: "Filter list"

definition FilterClass_new :: FilterClass where
  "FilterClass_new = \<lparr>mNames = [], mPaths = []\<rparr>"

definition FilterClass_add :: "Filter \<Rightarrow> FilterClass \<Rightarrow> FilterClass" where
  "FilterClass_add f fc =
     (case mType f of
        FT_NAME \<Rightarrow> fc\<lparr>mNames := mNames fc @ [f]\<rparr>
      | FT_PATH \<Rightarrow> fc\<lparr>mPaths := mPaths fc @ [f]\<rparr>)"

definition FilterClass_clear :: "FilterClass \<Rightarrow> FilterClass" where
  "FilterClass_clear fc = fc\<lparr>mNames := [], mPaths := []\<rparr>"

definition FilterClass_empty :: "FilterClass \<Rightarrow> bool" where
  "FilterClass_empty fc = (mNames fc = [] \<and> mPaths fc = [])"

text \<open>
  One \<^verbatim>\<open>for\<close> loop of \<^verbatim>\<open>FilterClass::match\<close> over a rule list, against the candidate
  string \<open>s\<close>: \<open>True\<close> is the \<^verbatim>\<open>return true\<close> inside the loop, \<open>False\<close> is falling out of
  the loop.
\<close>

fun match_loop :: "wildcard \<Rightarrow> bool \<Rightarrow> string \<Rightarrow> Filter list \<Rightarrow> bool" where
  "match_loop wm onlyInheritable s [] = False"
| "match_loop wm onlyInheritable s (f # fs) =
     (if onlyInheritable \<and> \<not> mInheritable f then match_loop wm onlyInheritable s fs
      else if Filter_match wm f s then True
      else match_loop wm onlyInheritable s fs)"

definition FilterClass_match ::
  "wildcard \<Rightarrow> FilterClass \<Rightarrow> string \<times> string \<Rightarrow> bool \<Rightarrow> bool" where
  "FilterClass_match wm fc p onlyInheritable =
     (if match_loop wm onlyInheritable (snd p) (mPaths fc) then True
      else if match_loop wm onlyInheritable (fst p) (mNames fc) then True
      else False)"

section \<open>FilterChain\<close>

record FilterChain =
  mExclusions :: FilterClass
  mInclusions :: FilterClass

definition FilterChain_new :: FilterChain where
  "FilterChain_new = \<lparr>mExclusions = FilterClass_new, mInclusions = FilterClass_new\<rparr>"

definition syntaxError :: "string \<Rightarrow> bool" where
  "syntaxError t = False"

fun isEmpty_loop :: "string \<Rightarrow> nat \<Rightarrow> nat" where
  \<comment> \<open>the \<^verbatim>\<open>while (m < n)\<close> loop; \<open>w\<close> is counted from the start of the pattern\<close>
  "isEmpty_loop [] w = w"
| "isEmpty_loop (c # cs) w = isEmpty_loop cs (w + (if isspace c then 1 else 0))"

definition isEmpty :: "string \<Rightarrow> bool" where
  \<comment> \<open>\<^verbatim>\<open>isEmpty(m, n)\<close> with \<open>n\<close> the end of the string: \<^verbatim>\<open>n == w\<close>\<close>
  "isEmpty m = (length m = isEmpty_loop m 0)"

text \<open>The three \<^verbatim>\<open>switch\<close> statements of \<^verbatim>\<open>FilterChain::add\<close>, fall-through included.\<close>

definition add_class :: "char \<Rightarrow> bool option" where
  \<comment> \<open>\<open>Some exclusion\<close>, or \<open>None\<close> for the \<^verbatim>\<open>default\<close> branch that returns\<close>
  "add_class c =
     (if c = CHR ''-'' then Some True
      else if c = CHR ''+'' then Some False
      else None)"

definition add_type :: "string \<Rightarrow> bool \<times> FilterType \<times> string" where
  \<comment> \<open>\<open>(inheritable, type, m)\<close> after the switch\<close>
  "add_type m =
     (if deref m = CHR ''N'' then (False, FT_NAME, tl m)
      else if deref m = CHR ''n'' then (True, FT_NAME, tl m)
      else if deref m = CHR ''p'' then (True, FT_PATH, tl m)
      else (True, FT_NAME, m))"

definition add_strategy :: "string \<Rightarrow> bool \<times> string" where
  \<comment> \<open>\<open>(regex, m)\<close> after the switch\<close>
  "add_strategy m =
     (if deref m = CHR ''g'' then (False, tl m)
      else if deref m = CHR ''r'' then (True, tl m)
      else (False, m))"

text \<open>
  \<^verbatim>\<open>FilterChain::add\<close> in two parts. Up to and including the \<^verbatim>\<open>try\<close> block the function
  only reads \<open>text\<close> and writes locals: \<open>add_parse\<close> gives \<open>None\<close> for each
  \<^verbatim>\<open>return syntaxError(text)\<close> and otherwise the locals \<open>exclusion\<close> and \<open>filter\<close>. The rest
  moves the filter into one of the two classes.
\<close>

definition add_parse :: "regex_compile \<Rightarrow> string \<Rightarrow> (bool \<times> Filter) option" where
  "add_parse rc text =
     (case add_class (deref text) of
        None \<Rightarrow> None
      | Some exclusion \<Rightarrow>
          (case add_type (tl text) of
             (inheritable, type, m2) \<Rightarrow>
               (case add_strategy m2 of
                  (regex, m3) \<Rightarrow>
                    if deref m3 \<noteq> CHR '':'' then None
                    else
                      let m = tl m3 in
                      if isEmpty m then None
                      else
                        (case (if regex then RegexFilter_new rc (c_str m) inheritable type
                               else Some (GlobFilter_new (c_str m) inheritable type)) of
                           None \<Rightarrow> None
                         | Some flt \<Rightarrow> Some (exclusion, flt)))))"

definition FilterChain_add ::
  "regex_compile \<Rightarrow> string \<Rightarrow> FilterChain \<Rightarrow> bool \<times> FilterChain" where
  "FilterChain_add rc text chain =
     (case add_parse rc text of
        None \<Rightarrow> (syntaxError text, chain)
      | Some (exclusion, flt) \<Rightarrow>
          (True,
           if exclusion
           then chain\<lparr>mExclusions := FilterClass_add flt (mExclusions chain)\<rparr>
           else chain\<lparr>mInclusions := FilterClass_add flt (mInclusions chain)\<rparr>))"

definition FilterChain_clear :: "FilterChain \<Rightarrow> FilterChain" where
  "FilterChain_clear chain =
     chain\<lparr>mExclusions := FilterClass_clear (mExclusions chain),
           mInclusions := FilterClass_clear (mInclusions chain)\<rparr>"

definition FilterChain_empty :: "FilterChain \<Rightarrow> bool" where
  "FilterChain_empty chain =
     (FilterClass_empty (mExclusions chain) \<and> FilterClass_empty (mInclusions chain))"

definition excluded :: "wildcard \<Rightarrow> FilterChain \<Rightarrow> string \<times> string \<Rightarrow> bool \<Rightarrow> bool" where
  "excluded wm chain p onlyInheritable = FilterClass_match wm (mExclusions chain) p onlyInheritable"

definition included :: "wildcard \<Rightarrow> FilterChain \<Rightarrow> string \<times> string \<Rightarrow> bool \<Rightarrow> bool" where
  "included wm chain p onlyInheritable = FilterClass_match wm (mInclusions chain) p onlyInheritable"

text \<open>
  The \<^verbatim>\<open>for\<close> loop of \<^verbatim>\<open>FilterChain::load\<close> over the lines read. It returns whether every
  line was added, together with the live chain at the moment the loop is left.
\<close>

fun load_loop :: "regex_compile \<Rightarrow> string list \<Rightarrow> FilterChain \<Rightarrow> bool \<times> FilterChain" where
  "load_loop rc [] chain = (True, chain)"
| "load_loop rc (f # fs) chain =
     (if deref f = CHR ''#'' then load_loop rc fs chain
      else
        (case FilterChain_add rc f chain of
           (ok, chain') \<Rightarrow> if \<not> ok then (False, chain') else load_loop rc fs chain'))"

text \<open>
  \<^verbatim>\<open>readLines\<close> is a collaborator outside the sources at hand. What the call
  \<^verbatim>\<open>readLines(isAccess, filters)\<close> yields is the parameter \<open>read\<close>: the lines read from
  the input, or \<open>None\<close> when reading fails. The two \<^verbatim>\<open>FilterClass\<close> members are moved
  into the locals \<open>exclusions\<close> and \<open>inclusions\<close>; whatever the move leaves behind,
  \<^verbatim>\<open>clear()\<close> empties it.
\<close>

definition FilterChain_load ::
  "regex_compile \<Rightarrow> string list option \<Rightarrow> FilterChain \<Rightarrow> bool \<times> FilterChain" where
  "FilterChain_load rc read chain =
     (case read of
        None \<Rightarrow> (False, chain)
      | Some filters \<Rightarrow>
          let exclusions = mExclusions chain;
              inclusions = mInclusions chain;
              chain1 = FilterChain_clear chain
          in (case load_loop rc filters chain1 of
                (ok, chain2) \<Rightarrow>
                  if \<not> ok
                  then (False, chain2\<lparr>mExclusions := exclusions, mInclusions := inclusions\<rparr>)
                  else (True, chain2)))"

section \<open>The rule grammar as the specification words it\<close>

text \<open>
  The specification describes a line by positions: the sign at position 0, an optional axis
  token at position 1, an optional strategy token behind it, the colon, and the pattern as
  every remaining character. These definitions follow that description, not the code.
\<close>

definition char_at :: "string \<Rightarrow> nat \<Rightarrow> char" where
  \<comment> \<open>the character at a position of the line; behind its end there is the terminator\<close>
  "char_at s i = (if i < length s then s ! i else NUL)"

definition spec_axis :: "char \<Rightarrow> FilterType \<times> bool \<times> nat" where
  \<comment> \<open>axis, inheritable flag, number of characters consumed\<close>
  "spec_axis c =
     (if c = CHR ''N'' then (FT_NAME, False, 1)
      else if c = CHR ''n'' then (FT_NAME, True, 1)
      else if c = CHR ''p'' then (FT_PATH, True, 1)
      else (FT_NAME, True, 0))"

definition spec_strategy :: "char \<Rightarrow> FilterStrategy \<times> nat" where
  \<comment> \<open>strategy, number of characters consumed\<close>
  "spec_strategy c =
     (if c = CHR ''g'' then (FS_GLOB, 1)
      else if c = CHR ''r'' then (FS_REGEX, 1)
      else (FS_GLOB, 0))"

definition spec_strategy_pos :: "string \<Rightarrow> nat" where
  "spec_strategy_pos line = 1 + snd (snd (spec_axis (char_at line 1)))"

definition spec_colon_pos :: "string \<Rightarrow> nat" where
  "spec_colon_pos line =
     spec_strategy_pos line + snd (spec_strategy (char_at line (spec_strategy_pos line)))"

definition spec_pattern :: "string \<Rightarrow> string" where
  "spec_pattern line = drop (spec_colon_pos line + 1) line"

definition spec_rejected :: "regex_compile \<Rightarrow> string \<Rightarrow> bool" where
  \<comment> \<open>a bad sign, no colon, an empty or all-whitespace pattern, or a regex pattern that does
      not compile; the pattern is every character behind the colon\<close>
  "spec_rejected rc line =
     ((char_at line 0 \<noteq> CHR ''-'' \<and> char_at line 0 \<noteq> CHR ''+'')
      \<or> char_at line (spec_colon_pos line) \<noteq> CHR '':''
      \<or> spec_pattern line = []
      \<or> (\<forall>c\<in>set (spec_pattern line). isspace c)
      \<or> (fst (spec_strategy (char_at line (spec_strategy_pos line))) = FS_REGEX
          \<and> rc (spec_pattern line) = None))"

section \<open>Rule sets as lists of parsed rules\<close>

definition rules_of :: "bool \<Rightarrow> FilterType \<Rightarrow> (bool \<times> Filter) list \<Rightarrow> Filter list" where
  \<comment> \<open>of the parsed rules, in order, those of one direction and one axis\<close>
  "rules_of e ty ps = map snd (filter (\<lambda>q. fst q = e \<and> mType (snd q) = ty) ps)"

definition chain_extend :: "FilterChain \<Rightarrow> (bool \<times> Filter) list \<Rightarrow> FilterChain" where
  \<comment> \<open>a chain with parsed rules appended behind the rules it holds\<close>
  "chain_extend c ps =
     \<lparr>mExclusions = \<lparr>mNames = mNames (mExclusions c) @ rules_of True FT_NAME ps,
                     mPaths = mPaths (mExclusions c) @ rules_of True FT_PATH ps\<rparr>,
      mInclusions = \<lparr>mNames = mNames (mInclusions c) @ rules_of False FT_NAME ps,
                     mPaths = mPaths (mInclusions c) @ rules_of False FT_PATH ps\<rparr>\<rparr>"

definition chain_of :: "(bool \<times> Filter) list \<Rightarrow> FilterChain" where
  \<comment> \<open>the chain that holds exactly the parsed rules\<close>
  "chain_of ps =
     \<lparr>mExclusions = \<lparr>mNames = rules_of True FT_NAME ps, mPaths = rules_of True FT_PATH ps\<rparr>,
      mInclusions = \<lparr>mNames = rules_of False FT_NAME ps, mPaths = rules_of False FT_PATH ps\<rparr>\<rparr>"

definition rule_lines :: "string list \<Rightarrow> string list" where
  \<comment> \<open>the lines that the loop of \<^verbatim>\<open>load\<close> does not skip as comments\<close>
  "rule_lines filters = filter (\<lambda>f. deref f \<noteq> CHR ''#'') filters"

definition line_valid :: "regex_compile \<Rightarrow> string \<Rightarrow> bool" where
  \<comment> \<open>a line that \<^verbatim>\<open>add\<close> accepts on a fresh chain\<close>
  "line_valid rc f = fst (FilterChain_add rc f FilterChain_new)"

section \<open>Auxiliary facts\<close>

lemma NUL_noteq [simp]:
  "CHR ''-'' \<noteq> NUL" "CHR ''+'' \<noteq> NUL" "CHR ''N'' \<noteq> NUL" "CHR ''n'' \<noteq> NUL"
  "CHR ''p'' \<noteq> NUL" "CHR ''g'' \<noteq> NUL" "CHR ''r'' \<noteq> NUL" "CHR '':'' \<noteq> NUL"
  "CHR ''#'' \<noteq> NUL"
  by (simp_all add: NUL_def)

lemma c_str_id: "NUL \<notin> set s \<Longrightarrow> c_str s = s"
  by (auto simp: c_str_def)

lemma isEmpty_loop_count: "isEmpty_loop m w = w + length (filter isspace m)"
  by (induction m arbitrary: w) simp_all

lemma length_filter_full: "length (filter P xs) = length xs \<longleftrightarrow> (\<forall>x\<in>set xs. P x)"
proof (induction xs)
  case Nil
  show ?case by simp
next
  case (Cons x xs)
  show ?case
  proof (cases "P x")
    case True
    with Cons show ?thesis by simp
  next
    case False
    have "length (filter P xs) \<le> length xs" by (rule length_filter_le)
    then have "length (filter P xs) \<noteq> Suc (length xs)" by linarith
    with False show ?thesis by simp
  qed
qed

lemma isEmpty_iff: "isEmpty m \<longleftrightarrow> (\<forall>c\<in>set m. isspace c)"
  using length_filter_full [of isspace m]
  by (auto simp: isEmpty_def isEmpty_loop_count)

lemma nullable_iff: "nullable r \<longleftrightarrow> [] \<in> lang r"
  by (induction r) (auto intro: star.star_nil)

lemma star_Cons_split:
  "x \<in> star A \<Longrightarrow> x = a # w \<Longrightarrow> \<exists>u v. w = u @ v \<and> a # u \<in> A \<and> v \<in> star A"
proof (induction arbitrary: a w rule: star.induct)
  case star_nil
  then show ?case by simp
next
  case (star_app u v)
  show ?case
  proof (cases u)
    case Nil
    with star_app show ?thesis by simp
  next
    case (Cons b u')
    with star_app.prems have "b = a" "w = u' @ v" by simp_all
    with Cons star_app.hyps show ?thesis by blast
  qed
qed

lemma star_Cons_iff:
  "a # w \<in> star A \<longleftrightarrow> (\<exists>u v. w = u @ v \<and> a # u \<in> A \<and> v \<in> star A)"
proof
  assume "a # w \<in> star A"
  then show "\<exists>u v. w = u @ v \<and> a # u \<in> A \<and> v \<in> star A"
    by (rule star_Cons_split) simp
next
  assume "\<exists>u v. w = u @ v \<and> a # u \<in> A \<and> v \<in> star A"
  then obtain u v where "w = u @ v" "a # u \<in> A" "v \<in> star A" by blast
  then show "a # w \<in> star A"
    using star.star_app [of "a # u" A v] by simp
qed

lemma lang_deriv: "lang (deriv a r) = {w. a # w \<in> lang r}"
proof (induction r)
  case (Seq r s)
  then show ?case
    by (auto simp: nullable_iff Cons_eq_append_conv)
next
  case (Star r)
  then show ?case
    by (auto simp: star_Cons_iff)
qed (auto simp: length_Suc_conv)

lemma std_regex_match_iff: "std_regex_match s r \<longleftrightarrow> s \<in> lang r"
  by (induction s arbitrary: r) (simp_all add: nullable_iff lang_deriv)

lemma deref_drop: "deref (drop i s) = char_at s i"
proof (cases "i < length s")
  case True
  then have "drop i s = s ! i # drop (Suc i) s" by (simp add: Cons_nth_drop_Suc)
  with True show ?thesis by (simp add: deref_def char_at_def)
next
  case False
  then show ?thesis by (simp add: deref_def char_at_def)
qed

lemma deref_0: "deref s = char_at s 0"
  using deref_drop [of 0 s] by simp

lemma char_at_drop_0: "char_at (drop i s) 0 = char_at s i"
  using deref_drop [of i s] deref_0 [of "drop i s"] by simp

lemma tl_drop_Suc: "tl (drop i s) = drop (Suc i) s"
  by (simp add: drop_Suc tl_drop)

lemma add_type_spec:
  "add_type (drop 1 line) =
     (fst (snd (spec_axis (char_at line 1))), fst (spec_axis (char_at line 1)),
      drop (spec_strategy_pos line) line)"
  unfolding add_type_def spec_axis_def spec_strategy_pos_def deref_drop tl_drop_Suc
  by simp

lemma add_strategy_spec:
  "add_strategy (drop i line) =
     (fst (spec_strategy (char_at line i)) = FS_REGEX,
      drop (i + snd (spec_strategy (char_at line i))) line)"
  unfolding add_strategy_def spec_strategy_def deref_drop tl_drop_Suc
  by simp

lemma add_class_spec:
  "add_class c = (if c = CHR ''-'' \<or> c = CHR ''+'' then Some (c = CHR ''-'') else None)"
  by (simp add: add_class_def)

lemma add_parse_walk:
  "add_parse rc line =
     (if char_at line 0 \<noteq> CHR ''-'' \<and> char_at line 0 \<noteq> CHR ''+'' then None
      else if char_at line (spec_colon_pos line) \<noteq> CHR '':'' then None
      else if isEmpty (spec_pattern line) then None
      else if fst (spec_strategy (char_at line (spec_strategy_pos line))) = FS_REGEX
      then (case rc (c_str (spec_pattern line)) of
              None \<Rightarrow> None
            | Some r \<Rightarrow>
                Some (char_at line 0 = CHR ''-'',
                      RegexFilter (c_str (spec_pattern line))
                        (fst (snd (spec_axis (char_at line 1))))
                        (fst (spec_axis (char_at line 1))) r))
      else Some (char_at line 0 = CHR ''-'',
                 GlobFilter (c_str (spec_pattern line))
                   (fst (snd (spec_axis (char_at line 1))))
                   (fst (spec_axis (char_at line 1)))))"
proof -
  have tl1: "tl line = drop 1 line" by (simp add: drop_Suc)
  have pat: "tl (drop (spec_colon_pos line) line) = spec_pattern line"
    by (simp add: spec_pattern_def tl_drop_Suc)
  show ?thesis
    unfolding add_parse_def tl1 add_type_spec add_class_spec deref_0
    by (simp add: Let_def add_strategy_spec char_at_drop_0 pat
        spec_colon_pos_def [symmetric] RegexFilter_new_def GlobFilter_new_def
        split: option.splits)
qed

lemma isEmpty_spec: "isEmpty p \<longleftrightarrow> p = [] \<or> (\<forall>c\<in>set p. isspace c)"
  by (auto simp: isEmpty_iff)

lemma add_parse_Some:
  assumes "add_parse rc line = Some q"
  shows "fst q = (char_at line 0 = CHR ''-'')
     \<and> (char_at line 0 = CHR ''-'' \<or> char_at line 0 = CHR ''+'')
     \<and> char_at line (spec_colon_pos line) = CHR '':''
     \<and> mType (snd q) = fst (spec_axis (char_at line 1))
     \<and> mInheritable (snd q) = fst (snd (spec_axis (char_at line 1)))
     \<and> strategy (snd q) = fst (spec_strategy (char_at line (spec_strategy_pos line)))
     \<and> mText (snd q) = c_str (spec_pattern line)"
proof (cases "fst (spec_strategy (char_at line (spec_strategy_pos line)))")
  case FS_GLOB
  with assms show ?thesis
    by (auto simp: add_parse_walk split: if_splits)
next
  case FS_REGEX
  with assms show ?thesis
    by (auto simp: add_parse_walk split: if_splits option.splits)
qed

lemma spec_pattern_no_NUL: "NUL \<notin> set line \<Longrightarrow> c_str (spec_pattern line) = spec_pattern line"
proof (rule c_str_id)
  assume "NUL \<notin> set line"
  then show "NUL \<notin> set (spec_pattern line)"
    unfolding spec_pattern_def by (auto dest: in_set_dropD)
qed

lemma add_parse_None_without_NUL:
  assumes "NUL \<notin> set line"
  shows "add_parse rc line = None \<longleftrightarrow> spec_rejected rc line"
proof (cases "fst (spec_strategy (char_at line (spec_strategy_pos line)))")
  case FS_GLOB
  then show ?thesis
    by (auto simp: add_parse_walk spec_rejected_def isEmpty_spec)
next
  case FS_REGEX
  then show ?thesis
    by (auto simp: add_parse_walk spec_rejected_def isEmpty_spec spec_pattern_no_NUL [OF assms]
        split: option.splits)
qed

text \<open>
  On the lines that hold no NUL byte, \<^verbatim>\<open>add\<close> fails exactly on the lines that the grammar
  of the specification rejects, and then leaves the chain as it was; on the others it adds
  one filter to the class that the sign selects.
\<close>

lemma add_outcome_without_NUL:
  assumes "NUL \<notin> set line"
  shows "(fst (FilterChain_add rc line chain) = False \<longleftrightarrow> spec_rejected rc line)
   \<and> (spec_rejected rc line \<longrightarrow> FilterChain_add rc line chain = (False, chain))
   \<and> (\<not> spec_rejected rc line \<longrightarrow>
        (\<exists>f. FilterChain_add rc line chain =
               (True,
                if char_at line 0 = CHR ''-''
                then chain\<lparr>mExclusions := FilterClass_add f (mExclusions chain)\<rparr>
                else chain\<lparr>mInclusions := FilterClass_add f (mInclusions chain)\<rparr>)))"
proof (cases "add_parse rc line")
  case None
  then have "FilterChain_add rc line chain = (False, chain)"
    by (simp add: FilterChain_add_def syntaxError_def)
  moreover from None have "spec_rejected rc line"
    by (simp add: add_parse_None_without_NUL [OF assms])
  ultimately show ?thesis by simp
next
  case (Some q)
  then have nr: "\<not> spec_rejected rc line"
    using add_parse_None_without_NUL [OF assms, of rc] by simp
  from add_parse_Some [OF Some] have "fst q = (char_at line 0 = CHR ''-'')" by simp
  with Some have "FilterChain_add rc line chain =
      (True,
       if char_at line 0 = CHR ''-''
       then chain\<lparr>mExclusions := FilterClass_add (snd q) (mExclusions chain)\<rparr>
       else chain\<lparr>mInclusions := FilterClass_add (snd q) (mInclusions chain)\<rparr>)"
    by (cases q) (simp add: FilterChain_add_def)
  with nr show ?thesis by auto
qed

text \<open>
  A NUL byte in the pattern ends the text that the filter's constructor receives, although
  \<^verbatim>\<open>isEmpty(m, n)\<close> has looked at the pattern up to the end of the line: a pattern that
  consists of a NUL byte passes the test for emptiness and is stored as the empty text.
\<close>

lemma add_parse_stores_empty_text:
  "add_parse rc (''-:'' @ [NUL]) = Some (True, GlobFilter [] True FT_NAME)"
  by (simp add: add_parse_def add_class_def add_type_def add_strategy_def deref_def
      isEmpty_def isspace_def c_str_def NUL_def GlobFilter_new_def)

lemma match_loop_iff:
  "match_loop wm oi s fs \<longleftrightarrow>
     (\<exists>f\<in>set fs. \<not> (oi \<and> \<not> mInheritable f) \<and> Filter_match wm f s)"
  by (induction fs) auto

lemma FilterClass_match_iff:
  "FilterClass_match wm fc p oi \<longleftrightarrow>
     (\<exists>f\<in>set (mPaths fc). \<not> (oi \<and> \<not> mInheritable f) \<and> Filter_match wm f (snd p))
     \<or> (\<exists>f\<in>set (mNames fc). \<not> (oi \<and> \<not> mInheritable f) \<and> Filter_match wm f (fst p))"
  by (simp add: FilterClass_match_def match_loop_iff)

lemma add_failed: "add_parse rc t = None \<Longrightarrow> FilterChain_add rc t c = (False, c)"
  by (simp add: FilterChain_add_def syntaxError_def)

lemma add_ok:
  "add_parse rc t = Some (e, f) \<Longrightarrow>
   FilterChain_add rc t c =
     (True, if e then c\<lparr>mExclusions := FilterClass_add f (mExclusions c)\<rparr>
            else c\<lparr>mInclusions := FilterClass_add f (mInclusions c)\<rparr>)"
  by (simp add: FilterChain_add_def)

lemma fst_add_iff: "fst (FilterChain_add rc t c) \<longleftrightarrow> add_parse rc t \<noteq> None"
  by (cases "add_parse rc t") (auto simp: add_failed add_ok)

lemma line_valid_iff: "line_valid rc t \<longleftrightarrow> add_parse rc t \<noteq> None"
  by (simp add: line_valid_def fst_add_iff)

lemma not_line_valid_iff: "\<not> line_valid rc t \<longleftrightarrow> add_parse rc t = None"
  by (cases "add_parse rc t") (simp_all add: line_valid_iff)

lemma add_extend:
  "add_parse rc t = Some q \<Longrightarrow>
   FilterChain_add rc t c = (True, chain_extend c [q])"
  by (cases q; cases c; cases "mExclusions c"; cases "mInclusions c")
     (auto simp: add_ok chain_extend_def rules_of_def FilterClass_add_def
           split: FilterType.splits)

lemma chain_extend_Nil: "chain_extend c [] = c"
  by (cases c; cases "mExclusions c"; cases "mInclusions c")
     (simp add: chain_extend_def rules_of_def)

lemma chain_extend_Cons: "chain_extend (chain_extend c [q]) ps = chain_extend c (q # ps)"
  by (simp add: chain_extend_def rules_of_def)

lemma load_loop_fail:
  "\<exists>f\<in>set fs. deref f \<noteq> CHR ''#'' \<and> add_parse rc f = None \<Longrightarrow> \<not> fst (load_loop rc fs c)"
proof (induction fs arbitrary: c)
  case Nil
  then show ?case by simp
next
  case (Cons f fs)
  show ?case
  proof (cases "deref f = CHR ''#''")
    case True
    with Cons show ?thesis by simp
  next
    case False
    show ?thesis
    proof (cases "add_parse rc f")
      case None
      with False show ?thesis by (simp add: add_failed)
    next
      case (Some q)
      with Cons.prems have "\<exists>f\<in>set fs. deref f \<noteq> CHR ''#'' \<and> add_parse rc f = None"
        by auto
      from Cons.IH [OF this] False Some show ?thesis
        by (simp add: add_extend)
    qed
  qed
qed

lemma load_loop_ok:
  "\<forall>f\<in>set fs. deref f \<noteq> CHR ''#'' \<longrightarrow> add_parse rc f \<noteq> None \<Longrightarrow>
   load_loop rc fs c = (True, chain_extend c (List.map_filter (add_parse rc) (rule_lines fs)))"
proof (induction fs arbitrary: c)
  case Nil
  show ?case by (simp add: rule_lines_def List.map_filter_simps chain_extend_Nil)
next
  case (Cons f fs)
  then have IH: "load_loop rc fs c' =
      (True, chain_extend c' (List.map_filter (add_parse rc) (rule_lines fs)))" for c'
    by simp
  show ?case
  proof (cases "deref f = CHR ''#''")
    case True
    then show ?thesis by (simp add: IH rule_lines_def)
  next
    case False
    with Cons.prems obtain q where q: "add_parse rc f = Some q" by auto
    with False show ?thesis
      by (simp add: IH add_extend rule_lines_def List.map_filter_simps chain_extend_Cons)
  qed
qed

lemma map_filter_total:
  "\<forall>x\<in>set xs. g x \<noteq> None \<Longrightarrow> length (List.map_filter g xs) = length xs"
  by (induction xs) (auto simp: List.map_filter_simps)

lemma chain_extend_clear: "chain_extend (FilterChain_clear c) ps = chain_of ps"
  by (simp add: chain_extend_def chain_of_def FilterChain_clear_def FilterClass_clear_def)

lemma restore: "c2\<lparr>mExclusions := mExclusions R, mInclusions := mInclusions R\<rparr> = (R :: FilterChain)"
  by (cases R; cases c2) simp

lemmas parse_defs = add_parse_def add_class_def add_type_def add_strategy_def deref_def
  isEmpty_def isspace_def c_str_def NUL_def GlobFilter_new_def RegexFilter_new_def

section \<open>The claims\<close>

text \<open>
  Claim C1 (atomic reload). Take any chain \<open>R\<close>. If reading the lines fails, or if the lines
  read contain at least one line that is not a comment and that \<^verbatim>\<open>add\<close> rejects, then
  \<^verbatim>\<open>load\<close> returns false and leaves the chain equal to \<open>R\<close>: nothing parsed during the
  failed attempt is retained, and \<^verbatim>\<open>excluded\<close> and \<^verbatim>\<open>included\<close> answer as they did in
  \<open>R\<close> for every name, path and \<open>onlyInheritable\<close>, whatever the wildcard matcher is.
\<close>

theorem load_failure_atomic:
  assumes "read = None
     \<or> (\<exists>filters. read = Some filters
           \<and> (\<exists>f\<in>set filters. deref f \<noteq> CHR ''#'' \<and> \<not> line_valid rc f))"
  shows "FilterChain_load rc read R = (False, R)
     \<and> (\<forall>wm p onlyInheritable.
           excluded wm (snd (FilterChain_load rc read R)) p onlyInheritable
             = excluded wm R p onlyInheritable
         \<and> included wm (snd (FilterChain_load rc read R)) p onlyInheritable
             = included wm R p onlyInheritable)"
proof -
  have "FilterChain_load rc read R = (False, R)"
  proof (cases read)
    case None
    then show ?thesis by (simp add: FilterChain_load_def)
  next
    case (Some filters)
    with assms obtain f where "f \<in> set filters" "deref f \<noteq> CHR ''#''" "\<not> line_valid rc f"
      by auto
    then have "\<exists>f\<in>set filters. deref f \<noteq> CHR ''#'' \<and> add_parse rc f = None"
      unfolding not_line_valid_iff by (intro bexI [of _ f] conjI)
    then have "\<not> fst (load_loop rc filters (FilterChain_clear R))"
      by (rule load_loop_fail)
    then obtain c2 where "load_loop rc filters (FilterChain_clear R) = (False, c2)"
      by (cases "load_loop rc filters (FilterChain_clear R)") auto
    with Some show ?thesis
      by (simp add: FilterChain_load_def Let_def restore)
  qed
  then show ?thesis by simp
qed

theorem load_failure_atomic_witness:
  "FilterChain_load (\<lambda>t. None) (Some [''# rules'', ''-N:*.tmp'', ''x:foo''])
      (chain_of [(True, GlobFilter ''old'' True FT_NAME)])
     = (False, chain_of [(True, GlobFilter ''old'' True FT_NAME)])"
proof -
  have h: "Some [''# rules'', ''-N:*.tmp'', ''x:foo''] = None
     \<or> (\<exists>filters. Some [''# rules'', ''-N:*.tmp'', ''x:foo''] = Some filters
           \<and> (\<exists>f\<in>set filters. deref f \<noteq> CHR ''#'' \<and> \<not> line_valid (\<lambda>t. None) f))"
    by (simp add: line_valid_def FilterChain_add_def syntaxError_def parse_defs)
  from load_failure_atomic [OF h] show ?thesis by blast
qed

text \<open>
  Claim C2 (contract of \<^verbatim>\<open>add\<close>). The claim has \<^verbatim>\<open>add\<close> return false exactly when the sign
  is invalid, the colon is missing, the pattern is empty or all whitespace, or a regex
  pattern does not compile. The code breaks it on a line that holds a NUL byte, because the
  constructor of the filter receives the pattern as a C string. Take the line
  \<^verbatim>\<open>-r:a\<close>, a NUL byte, \<^verbatim>\<open>(\<close> and a compiler that accepts the pattern \<^verbatim>\<open>a\<close> and nothing else:
  the pattern, every character behind the colon, does not compile, so the grammar of the
  specification rejects the line; \<^verbatim>\<open>add\<close> compiles \<^verbatim>\<open>a\<close>, returns true and gives the
  exclusions a regex filter whose text is \<^verbatim>\<open>a\<close>, on any chain.
\<close>

theorem add_accepts_pattern_cut_at_NUL:
  "spec_rejected (\<lambda>t. if t = ''a'' then Some (Atom CHR ''a'') else None)
      (''-r:a'' @ [NUL] @ ''('')
   \<and> FilterChain_add (\<lambda>t. if t = ''a'' then Some (Atom CHR ''a'') else None)
        (''-r:a'' @ [NUL] @ ''('') chain
      = (True, chain\<lparr>mExclusions :=
                  FilterClass_add (RegexFilter ''a'' True FT_NAME (Atom CHR ''a''))
                    (mExclusions chain)\<rparr>)"
proof -
  have "spec_rejected (\<lambda>t. if t = ''a'' then Some (Atom CHR ''a'') else None)
      (''-r:a'' @ [NUL] @ ''('')"
    by (simp add: spec_rejected_def spec_pattern_def spec_colon_pos_def spec_strategy_pos_def
        spec_strategy_def spec_axis_def char_at_def)
  moreover have "add_parse (\<lambda>t. if t = ''a'' then Some (Atom CHR ''a'') else None)
      (''-r:a'' @ [NUL] @ ''('') = Some (True, RegexFilter ''a'' True FT_NAME (Atom CHR ''a''))"
    by (simp add: add_parse_def add_class_def add_type_def add_strategy_def deref_def
        isEmpty_def isspace_def c_str_def NUL_def RegexFilter_new_def)
  ultimately show ?thesis by (simp add: FilterChain_add_def)
qed

theorem add_accepts_pattern_cut_at_NUL_witness:
  "FilterChain_add (\<lambda>t. if t = ''a'' then Some (Atom CHR ''a'') else None)
      (''-r:a'' @ [NUL] @ ''('') FilterChain_new
     = (True, chain_of [(True, RegexFilter ''a'' True FT_NAME (Atom CHR ''a''))])"
  using add_accepts_pattern_cut_at_NUL [of FilterChain_new]
  by (simp add: chain_of_def rules_of_def FilterChain_new_def FilterClass_new_def
      FilterClass_add_def)

text \<open>
  Claim C3 (token grammar). Whenever \<^verbatim>\<open>add\<close> accepts a line, the filter it appends has the
  axis and the inheritable flag that the axis rule derives from the character behind the
  sign (\<^verbatim>\<open>N\<close>: name, not inheritable, one character consumed; \<^verbatim>\<open>n\<close>: name, inheritable, one
  consumed; \<^verbatim>\<open>p\<close>: path, inheritable, one consumed; anything else: name, inheritable, none
  consumed), and the strategy that the strategy rule derives from the next character not
  consumed (\<^verbatim>\<open>g\<close>: glob, one consumed; \<^verbatim>\<open>r\<close>: regex, one consumed; anything else: glob, none
  consumed). The colon stands right behind the consumed tokens and the filter's text is
  what follows it, read as a C string.
\<close>

theorem add_token_grammar:
  assumes "FilterChain_add rc line chain = (True, chain')"
  shows "\<exists>f. add_parse rc line = Some (char_at line 0 = CHR ''-'', f)
           \<and> chain' = (if char_at line 0 = CHR ''-''
                       then chain\<lparr>mExclusions := FilterClass_add f (mExclusions chain)\<rparr>
                       else chain\<lparr>mInclusions := FilterClass_add f (mInclusions chain)\<rparr>)
           \<and> mType f = fst (spec_axis (char_at line 1))
           \<and> mInheritable f = fst (snd (spec_axis (char_at line 1)))
           \<and> strategy f
               = fst (spec_strategy (char_at line (1 + snd (snd (spec_axis (char_at line 1))))))
           \<and> char_at line (spec_colon_pos line) = CHR '':''
           \<and> mText f = c_str (drop (spec_colon_pos line + 1) line)"
proof -
  from assms have "fst (FilterChain_add rc line chain)" by simp
  then have "add_parse rc line \<noteq> None" by (simp add: fst_add_iff)
  then obtain q where q: "add_parse rc line = Some q" by blast
  define f where "f = snd q"
  from add_parse_Some [OF q]
  have sign: "fst q = (char_at line 0 = CHR ''-'')"
    and colon: "char_at line (spec_colon_pos line) = CHR '':''"
    and props: "mType f = fst (spec_axis (char_at line 1))
      \<and> mInheritable f = fst (snd (spec_axis (char_at line 1)))
      \<and> strategy f = fst (spec_strategy (char_at line (spec_strategy_pos line)))
      \<and> mText f = c_str (spec_pattern line)"
    by (simp_all add: f_def)
  from q sign have f: "add_parse rc line = Some (char_at line 0 = CHR ''-'', f)"
    by (cases q) (simp add: f_def)
  from add_ok [OF f, of chain] assms
  have c': "chain' = (if char_at line 0 = CHR ''-''
                       then chain\<lparr>mExclusions := FilterClass_add f (mExclusions chain)\<rparr>
                       else chain\<lparr>mInclusions := FilterClass_add f (mInclusions chain)\<rparr>)"
    by simp
  from f c' colon props show ?thesis
    by (auto simp: spec_strategy_pos_def spec_pattern_def)
qed

theorem add_token_grammar_witness:
  "FilterChain_add (\<lambda>t. if t = ''a.*'' then Some (Seq (Atom CHR ''a'') (Star AnyChar)) else None)
      ''+pr:a.*'' FilterChain_new
     = (True, chain_of [(False, RegexFilter ''a.*'' True FT_PATH
                                 (Seq (Atom CHR ''a'') (Star AnyChar)))])
   \<and> (\<exists>f. mType f = FT_PATH \<and> mInheritable f = True \<and> strategy f = FS_REGEX
           \<and> mText f = ''a.*'')"
proof -
  let ?rc = "\<lambda>t. if t = ''a.*'' then Some (Seq (Atom CHR ''a'') (Star AnyChar)) else None"
  have h: "FilterChain_add ?rc ''+pr:a.*'' FilterChain_new
     = (True, chain_of [(False, RegexFilter ''a.*'' True FT_PATH
                                 (Seq (Atom CHR ''a'') (Star AnyChar)))])"
    by (simp add: FilterChain_add_def parse_defs chain_of_def rules_of_def FilterChain_new_def
        FilterClass_new_def FilterClass_add_def)
  from add_token_grammar [OF h]
  have "\<exists>f. mType f = FT_PATH \<and> mInheritable f = True \<and> strategy f = FS_REGEX
           \<and> mText f = ''a.*''"
    by (auto simp: spec_axis_def spec_strategy_def spec_colon_pos_def spec_strategy_pos_def
        char_at_def c_str_def NUL_def)
  with h show ?thesis by blast
qed

text \<open>
  Claim C4 (match evaluation). \<^verbatim>\<open>FilterClass::match\<close> returns true if and only if some rule
  that the inheritance gate does not skip matches: a path-rule against the pair's path or a
  name-rule against the pair's name, where a rule is skipped exactly when
  \<open>onlyInheritable\<close> holds and the rule is not inheritable. The result is this disjunction
  over the rules, so it is the same for any two classes that hold the same rules, in
  whatever order and multiplicity.
\<close>

theorem match_is_disjunction:
  "(FilterClass_match wm fc p onlyInheritable \<longleftrightarrow>
      (\<exists>f\<in>set (mPaths fc). \<not> (onlyInheritable \<and> \<not> mInheritable f)
                                \<and> Filter_match wm f (snd p))
      \<or> (\<exists>f\<in>set (mNames fc). \<not> (onlyInheritable \<and> \<not> mInheritable f)
                                  \<and> Filter_match wm f (fst p)))
   \<and> (set (mPaths fc') = set (mPaths fc) \<and> set (mNames fc') = set (mNames fc) \<longrightarrow>
        FilterClass_match wm fc' p onlyInheritable = FilterClass_match wm fc p onlyInheritable)"
  by (simp add: FilterClass_match_iff)

theorem match_is_disjunction_witness:
  "FilterClass_match wildcardMatch
      \<lparr>mNames = [GlobFilter ''secret'' False FT_NAME],
       mPaths = [GlobFilter ''build/*'' True FT_PATH]\<rparr> (''secret'', ''src/secret'') False
   \<and> \<not> FilterClass_match wildcardMatch
      \<lparr>mNames = [GlobFilter ''secret'' False FT_NAME],
       mPaths = [GlobFilter ''build/*'' True FT_PATH]\<rparr> (''secret'', ''src/secret'') True"
  using
    match_is_disjunction [of wildcardMatch
      "\<lparr>mNames = [GlobFilter ''secret'' False FT_NAME],
        mPaths = [GlobFilter ''build/*'' True FT_PATH]\<rparr>" "(''secret'', ''src/secret'')" False
      "\<lparr>mNames = [GlobFilter ''secret'' False FT_NAME],
        mPaths = [GlobFilter ''build/*'' True FT_PATH]\<rparr>"]
    match_is_disjunction [of wildcardMatch
      "\<lparr>mNames = [GlobFilter ''secret'' False FT_NAME],
        mPaths = [GlobFilter ''build/*'' True FT_PATH]\<rparr>" "(''secret'', ''src/secret'')" True
      "\<lparr>mNames = [GlobFilter ''secret'' False FT_NAME],
        mPaths = [GlobFilter ''build/*'' True FT_PATH]\<rparr>"]
  by (simp add: c_str_def NUL_def)

text \<open>
  Claim C5 (a successful reload replaces). If the lines are read and every line that is not
  a comment is accepted by \<^verbatim>\<open>add\<close>, then \<^verbatim>\<open>load\<close> returns true and the chain afterwards
  holds exactly the rules parsed from the lines that do not start with \<^verbatim>\<open>#\<close>, in their
  order, one rule per such line. The lines starting with \<^verbatim>\<open>#\<close> are not parsed, and the result
  does not depend on the chain before the call.
\<close>

theorem load_success_replaces:
  assumes "read = Some filters"
    and "\<forall>f\<in>set filters. deref f \<noteq> CHR ''#'' \<longrightarrow> line_valid rc f"
  shows "FilterChain_load rc read chain
           = (True, chain_of (List.map_filter (add_parse rc) (rule_lines filters)))
     \<and> length (List.map_filter (add_parse rc) (rule_lines filters)) = length (rule_lines filters)"
proof -
  from assms(2) have ok: "\<forall>f\<in>set filters. deref f \<noteq> CHR ''#'' \<longrightarrow> add_parse rc f \<noteq> None"
    by (simp add: line_valid_iff)
  then have "\<forall>f\<in>set (rule_lines filters). add_parse rc f \<noteq> None"
    by (simp add: rule_lines_def)
  then have len: "length (List.map_filter (add_parse rc) (rule_lines filters))
      = length (rule_lines filters)"
    by (rule map_filter_total)
  from load_loop_ok [OF ok] assms(1)
  have "FilterChain_load rc read chain
           = (True, chain_of (List.map_filter (add_parse rc) (rule_lines filters)))"
    by (simp add: FilterChain_load_def Let_def chain_extend_clear)
  with len show ?thesis by simp
qed

theorem load_success_replaces_witness:
  "FilterChain_load (\<lambda>t. None)
      (Some [''# rules'', ''-N:*.tmp'', ''#x:foo'', ''+p:build/*'', ''-:b''])
      (chain_of [(True, GlobFilter ''old'' True FT_NAME)])
     = (True,
        \<lparr>mExclusions = \<lparr>mNames = [GlobFilter ''*.tmp'' False FT_NAME, GlobFilter ''b'' True FT_NAME],
                        mPaths = []\<rparr>,
         mInclusions = \<lparr>mNames = [], mPaths = [GlobFilter ''build/*'' True FT_PATH]\<rparr>\<rparr>)"
proof -
  have h1: "Some [''# rules'', ''-N:*.tmp'', ''#x:foo'', ''+p:build/*'', ''-:b'']
      = Some [''# rules'', ''-N:*.tmp'', ''#x:foo'', ''+p:build/*'', ''-:b'']"
    by simp
  have h2: "\<forall>f\<in>set [''# rules'', ''-N:*.tmp'', ''#x:foo'', ''+p:build/*'', ''-:b''].
      deref f \<noteq> CHR ''#'' \<longrightarrow> line_valid (\<lambda>t. None) f"
    by (simp add: line_valid_def FilterChain_add_def parse_defs)
  from load_success_replaces [OF h1 h2, of "chain_of [(True, GlobFilter ''old'' True FT_NAME)]"]
  show ?thesis
    by (simp add: rule_lines_def List.map_filter_simps parse_defs chain_of_def rules_of_def)
qed

text \<open>
  Claim C6 (regex full match). A \<^verbatim>\<open>RegexFilter\<close> matches a candidate if and only if the
  whole candidate belongs to the language of its compiled expression. In particular, when
  the pattern \<^verbatim>\<open>a\<close> compiles to an expression whose language is the single string \<^verbatim>\<open>a\<close>, the
  rule added by \<^verbatim>\<open>-r:a\<close> does not exclude the candidate \<^verbatim>\<open>cat\<close>, which contains \<^verbatim>\<open>a\<close>, and
  excludes the candidate \<^verbatim>\<open>a\<close>.
\<close>

theorem regex_full_match:
  "(Filter_match wm (RegexFilter t i ty r) s \<longleftrightarrow> s \<in> lang r)
   \<and> (rc ''a'' = Some ra \<and> lang ra = {''a''} \<longrightarrow>
        \<not> excluded wm (snd (FilterChain_add rc ''-r:a'' FilterChain_new)) (''cat'', ''cat'') oi
        \<and> (\<exists>u v. ''cat'' = u @ ''a'' @ v)
        \<and> excluded wm (snd (FilterChain_add rc ''-r:a'' FilterChain_new)) (''a'', ''a'') oi)"
proof -
  have "add_parse rc ''-r:a'' = Some (True, RegexFilter ''a'' True FT_NAME ra)"
    if "rc ''a'' = Some ra"
    using that
    by (simp add: add_parse_def add_class_def add_type_def add_strategy_def deref_def
        isEmpty_def isspace_def c_str_def NUL_def RegexFilter_new_def)
  moreover have "''cat'' = ''c'' @ ''a'' @ ''t''" by simp
  then have "\<exists>u v. ''cat'' = u @ ''a'' @ v" by blast
  ultimately show ?thesis
    by (auto simp: std_regex_match_iff add_ok excluded_def FilterClass_match_iff
        FilterClass_add_def FilterChain_new_def FilterClass_new_def)
qed

theorem regex_full_match_witness:
  "\<not> excluded wildcardMatch
       (snd (FilterChain_add (\<lambda>t. if t = ''a'' then Some (Atom CHR ''a'') else None)
               ''-r:a'' FilterChain_new)) (''cat'', ''cat'') False
   \<and> excluded wildcardMatch
       (snd (FilterChain_add (\<lambda>t. if t = ''a'' then Some (Atom CHR ''a'') else None)
               ''-r:a'' FilterChain_new)) (''a'', ''a'') False"
  using regex_full_match [of wildcardMatch "''a''" True FT_NAME "Atom CHR ''a''" "''a''"
      "\<lambda>t. if t = ''a'' then Some (Atom CHR ''a'') else None" "Atom CHR ''a''" False]
  by simp

text \<open>
  Claim C7 (directional independence). \<^verbatim>\<open>excluded\<close> depends on the exclusions only and
  \<^verbatim>\<open>included\<close> on the inclusions only. Adding a line whose sign is not \<^verbatim>\<open>-\<close> changes no answer
  of \<^verbatim>\<open>excluded\<close>, adding a line whose sign is not \<^verbatim>\<open>+\<close> changes no answer of \<^verbatim>\<open>included\<close>.
  After \<^verbatim>\<open>add("-N:x")\<close> and \<^verbatim>\<open>add("+N:x")\<close> on any chain, the pair \<^verbatim>\<open>("x", "x")\<close> is both
  excluded and included with \<open>onlyInheritable\<close> false, for a wildcard matcher that matches
  \<^verbatim>\<open>x\<close> against \<^verbatim>\<open>x\<close>.
\<close>

theorem directional_independence:
  "(mExclusions c = mExclusions c' \<longrightarrow> excluded wm c p oi = excluded wm c' p oi)
   \<and> (mInclusions c = mInclusions c' \<longrightarrow> included wm c p oi = included wm c' p oi)
   \<and> (deref line \<noteq> CHR ''-'' \<longrightarrow>
        excluded wm (snd (FilterChain_add rc line chain)) p oi = excluded wm chain p oi)
   \<and> (deref line \<noteq> CHR ''+'' \<longrightarrow>
        included wm (snd (FilterChain_add rc line chain)) p oi = included wm chain p oi)
   \<and> (wm ''x'' ''x'' \<longrightarrow>
        excluded wm (snd (FilterChain_add rc ''+N:x'' (snd (FilterChain_add rc ''-N:x'' chain))))
            (''x'', ''x'') False
        \<and> included wm (snd (FilterChain_add rc ''+N:x'' (snd (FilterChain_add rc ''-N:x'' chain))))
            (''x'', ''x'') False)"
proof -
  have excl: "mExclusions (snd (FilterChain_add rc line chain)) = mExclusions chain"
    if "deref line \<noteq> CHR ''-''"
  proof (cases "add_parse rc line")
    case None
    then show ?thesis by (simp add: add_failed)
  next
    case (Some q)
    with that have "fst q = False"
      by (auto simp: add_parse_walk deref_0 split: if_splits option.splits)
    with Some show ?thesis by (cases q) (simp add: add_ok)
  qed
  have incl: "mInclusions (snd (FilterChain_add rc line chain)) = mInclusions chain"
    if "deref line \<noteq> CHR ''+''"
  proof (cases "add_parse rc line")
    case None
    then show ?thesis by (simp add: add_failed)
  next
    case (Some q)
    with that have "fst q = True"
      by (auto simp: add_parse_walk deref_0 split: if_splits option.splits)
    with Some show ?thesis by (cases q) (simp add: add_ok)
  qed
  have m: "add_parse rc ''-N:x'' = Some (True, GlobFilter ''x'' False FT_NAME)"
    by (simp add: add_parse_def add_class_def add_type_def add_strategy_def deref_def
        isEmpty_def isspace_def c_str_def NUL_def GlobFilter_new_def)
  have pl: "add_parse rc ''+N:x'' = Some (False, GlobFilter ''x'' False FT_NAME)"
    by (simp add: add_parse_def add_class_def add_type_def add_strategy_def deref_def
        isEmpty_def isspace_def c_str_def NUL_def GlobFilter_new_def)
  have x: "c_str ''x'' = ''x''" by (simp add: c_str_def NUL_def)
  have both: "excluded wm (snd (FilterChain_add rc ''+N:x'' (snd (FilterChain_add rc ''-N:x'' chain))))
            (''x'', ''x'') False
        \<and> included wm (snd (FilterChain_add rc ''+N:x'' (snd (FilterChain_add rc ''-N:x'' chain))))
            (''x'', ''x'') False" if "wm ''x'' ''x''"
    using that
    by (simp add: add_ok [OF m] add_ok [OF pl] excluded_def included_def
        FilterClass_match_iff FilterClass_add_def x)
  from excl incl both show ?thesis
    by (simp add: excluded_def included_def)
qed

theorem directional_independence_witness:
  "excluded wildcardMatch
      (snd (FilterChain_add (\<lambda>t. None) ''+N:x''
         (snd (FilterChain_add (\<lambda>t. None) ''-N:x'' FilterChain_new)))) (''x'', ''x'') False
   \<and> included wildcardMatch
      (snd (FilterChain_add (\<lambda>t. None) ''+N:x''
         (snd (FilterChain_add (\<lambda>t. None) ''-N:x'' FilterChain_new)))) (''x'', ''x'') False"
proof -
  have h: "wildcardMatch ''x'' ''x''" by simp
  from h directional_independence [of FilterChain_new FilterChain_new wildcardMatch
      "(''x'', ''x'')" False "''-N:x''" "\<lambda>t. None" FilterChain_new]
  show ?thesis by blast
qed

text \<open>
  Claim C8 (round trip). On any chain \<^verbatim>\<open>add("-p:*.log")\<close> succeeds and appends to the
  exclusions' path-rules a glob filter on the path axis whose text is \<^verbatim>\<open>*.log\<close>, the line
  behind its colon. The filter renders as \<^verbatim>\<open>PATH/GLOB:*.log\<close>.
\<close>

theorem roundtrip_path_glob:
  "FilterChain_add rc ''-p:*.log'' chain
     = (True, chain\<lparr>mExclusions :=
                (mExclusions chain)\<lparr>mPaths := mPaths (mExclusions chain)
                                      @ [GlobFilter ''*.log'' True FT_PATH]\<rparr>\<rparr>)
   \<and> toString (GlobFilter ''*.log'' True FT_PATH) = ''PATH/GLOB:*.log''
   \<and> mType (GlobFilter ''*.log'' True FT_PATH) = FT_PATH
   \<and> strategy (GlobFilter ''*.log'' True FT_PATH) = FS_GLOB
   \<and> mText (GlobFilter ''*.log'' True FT_PATH) = drop 3 ''-p:*.log''"
proof -
  have "add_parse rc ''-p:*.log'' = Some (True, GlobFilter ''*.log'' True FT_PATH)"
    by (simp add: add_parse_def add_class_def add_type_def add_strategy_def deref_def
        isEmpty_def isspace_def c_str_def NUL_def GlobFilter_new_def)
  then show ?thesis
    by (simp add: add_ok FilterClass_add_def toString_def)
qed

theorem roundtrip_path_glob_witness:
  "FilterChain_add (\<lambda>t. None) ''-p:*.log'' FilterChain_new
     = (True, chain_of [(True, GlobFilter ''*.log'' True FT_PATH)])"
  using roundtrip_path_glob [of "\<lambda>t. None" FilterChain_new]
  by (simp add: chain_of_def rules_of_def FilterChain_new_def FilterClass_new_def)

text \<open>
  Claim C9 (monotonicity of the inheritance restriction). If a pair is excluded with
  \<open>onlyInheritable\<close> true, it is excluded with \<open>onlyInheritable\<close> false, and likewise for
  \<^verbatim>\<open>included\<close>.
\<close>

theorem inheritable_only_monotone:
  "(excluded wm chain p True \<longrightarrow> excluded wm chain p False)
   \<and> (included wm chain p True \<longrightarrow> included wm chain p False)"
  by (auto simp: excluded_def included_def FilterClass_match_iff)

theorem inheritable_only_monotone_witness:
  "excluded wildcardMatch (chain_of [(True, GlobFilter ''secret'' True FT_NAME)])
      (''secret'', ''secret'') True
   \<and> excluded wildcardMatch (chain_of [(True, GlobFilter ''secret'' True FT_NAME)])
      (''secret'', ''secret'') False"
proof -
  have h: "excluded wildcardMatch (chain_of [(True, GlobFilter ''secret'' True FT_NAME)])
      (''secret'', ''secret'') True"
    by (simp add: excluded_def FilterClass_match_def chain_of_def rules_of_def c_str_def NUL_def)
  from h inheritable_only_monotone [of wildcardMatch
      "chain_of [(True, GlobFilter ''secret'' True FT_NAME)]" "(''secret'', ''secret'')"]
  show ?thesis by blast
qed

text \<open>
  Claim C10 (an empty reload erases). If the lines are read and each of them starts with
  \<^verbatim>\<open>#\<close> (in particular, if there is no line), \<^verbatim>\<open>load\<close> returns true, the chain is empty
  afterwards, and \<^verbatim>\<open>excluded\<close> and \<^verbatim>\<open>included\<close> are false for every query.
\<close>

theorem load_comments_only_erases:
  assumes "read = Some filters"
    and "\<forall>f\<in>set filters. deref f = CHR ''#''"
  shows "fst (FilterChain_load rc read chain)
     \<and> FilterChain_empty (snd (FilterChain_load rc read chain))
     \<and> (\<forall>wm p onlyInheritable.
           \<not> excluded wm (snd (FilterChain_load rc read chain)) p onlyInheritable
         \<and> \<not> included wm (snd (FilterChain_load rc read chain)) p onlyInheritable)"
proof -
  from assms(2) have "load_loop rc filters c = (True, c)" for c
    by (induction filters arbitrary: c) simp_all
  with assms(1)
  have "FilterChain_load rc read chain = (True, FilterChain_clear chain)"
    by (simp add: FilterChain_load_def Let_def)
  then show ?thesis
    by (simp add: FilterChain_clear_def FilterClass_clear_def FilterChain_empty_def
        FilterClass_empty_def excluded_def included_def FilterClass_match_iff)
qed

theorem load_comments_only_erases_witness:
  "fst (FilterChain_load (\<lambda>t. None) (Some [''# nothing here'', ''#-N:x''])
          (chain_of [(True, GlobFilter ''old'' True FT_NAME)]))
   \<and> FilterChain_empty
        (snd (FilterChain_load (\<lambda>t. None) (Some [''# nothing here'', ''#-N:x''])
                (chain_of [(True, GlobFilter ''old'' True FT_NAME)])))"
proof -
  have h1: "Some [''# nothing here'', ''#-N:x''] = Some [''# nothing here'', ''#-N:x'']"
    by simp
  have h2: "\<forall>f\<in>set [''# nothing here'', ''#-N:x'']. deref f = CHR ''#''"
    by (simp add: deref_def)
  from load_comments_only_erases [OF h1 h2, of "\<lambda>t. None"
      "chain_of [(True, GlobFilter ''old'' True FT_NAME)]"]
  show ?thesis by blast
qed

end
